theory Spec2Isabelle
  imports Main "HOL-Library.Word"
begin

section \<open>AeX402 StableSwap math: machine integers and failures\<close>

text \<open>
  The SDK computes on \<open>uint64_t\<close> and \<open>__uint128_t\<close>: both are modelled as words, so
  that \<open>+\<close>, \<open>-\<close> and \<open>*\<close> wrap around exactly as the C++ operators do, and
  \<open>div\<close> is the truncating unsigned division. A conversion between the two widths
  (\<open>static_cast\<close> or the usual arithmetic conversion) is \<open>ucast\<close>.

  \<open>int64_t\<close> timestamps are 64-bit words read in two's complement: comparisons on them
  are the signed ones (\<open><s\<close>, \<open>\<le>s\<close>), and the subtraction of two timestamps is the
  two's-complement difference.

  A function returning \<open>std::optional\<close> can end in three ways: with a value
  (\<open>Inr v\<close>), with \<open>std::nullopt\<close> (\<open>Inl Nullopt\<close>), or by dividing by zero, where the
  C++ program has no defined result and the hardware traps (\<open>Inl DivisionByZero\<close>).
  Every division of the source whose divisor is not checked by the source carries that
  branch in the model.
\<close>

type_synonym u64 = "64 word"
type_synonym u128 = "128 word"
type_synonym i64 = "64 word"

datatype error = Nullopt | DivisionByZero

definition NEWTON_ITERATIONS :: nat where
  "NEWTON_ITERATIONS = 255"

definition FEE_DENOMINATOR :: u64 where
  "FEE_DENOMINATOR = 10000"

section \<open>math.hpp\<close>

subsection \<open>128-bit helpers\<close>

definition mul128 :: "u64 \<Rightarrow> u64 \<Rightarrow> u128" where
  "mul128 a b = ucast a * ucast b"

definition div128 :: "u128 \<Rightarrow> u64 \<Rightarrow> u64" where
  "div128 n d = (if d = 0 then 0 else ucast (n div ucast d))"

subsection \<open>Integer square roots\<close>

text \<open>
  \<open>while (y < x) { x = y; y = (x + n / x) / 2; }\<close>: the division is by the new \<open>x\<close>,
  which is the old \<open>y\<close>.
\<close>

function isqrt_loop :: "u64 \<Rightarrow> u64 \<Rightarrow> u64 \<Rightarrow> error + u64" where
  "isqrt_loop n x y =
     (if y < x then
        (if y = 0 then Inl DivisionByZero
         else isqrt_loop n y ((y + n div y) div 2))
      else Inr x)"
  by pat_completeness auto
termination
  by (relation "measure (\<lambda>(n, x, y). unat x)") (auto simp: word_less_nat_alt)

definition isqrt :: "u64 \<Rightarrow> error + u64" where
  "isqrt n =
     (if n = 0 then Inr 0
      else if n \<le> 3 then Inr 1
      else isqrt_loop n n ((n + 1) div 2))"

function isqrt128_loop :: "u128 \<Rightarrow> u128 \<Rightarrow> u128 \<Rightarrow> error + u128" where
  "isqrt128_loop n x y =
     (if y < x then
        (if y = 0 then Inl DivisionByZero
         else isqrt128_loop n y ((y + n div y) div 2))
      else Inr x)"
  by pat_completeness auto
termination
  by (relation "measure (\<lambda>(n, x, y). unat x)") (auto simp: word_less_nat_alt)

definition isqrt128 :: "u128 \<Rightarrow> error + u64" where
  "isqrt128 n =
     (if n = 0 then Inr 0
      else if n \<le> 3 then Inr 1
      else (case isqrt128_loop n n ((n + 1) div 2) of
              Inl e \<Rightarrow> Inl e
            | Inr x \<Rightarrow> Inr (ucast x)))"

subsection \<open>Two-token invariant \<open>D\<close>\<close>

text \<open>
  One pass of the \<open>for\<close> loop of \<open>calc_d\<close> per unfolding; \<open>i\<close> is the loop counter.
  \<open>2 * x\<close> and \<open>2 * y\<close> are 64-bit products, and neither divisor is checked.
\<close>

function calc_d_loop :: "u64 \<Rightarrow> u64 \<Rightarrow> u64 \<Rightarrow> u64 \<Rightarrow> nat \<Rightarrow> u64 \<Rightarrow> error + u64" where
  "calc_d_loop x y s ann i d =
     (if i < NEWTON_ITERATIONS then
        (if 2 * x = 0 then Inl DivisionByZero
         else let d_p = mul128 d d div ucast (2 * x) in
           if 2 * y = 0 then Inl DivisionByZero
           else let d_p = d_p * ucast d div ucast (2 * y);
                    d_prev = d;
                    num = (mul128 ann s + d_p * 2) * ucast d;
                    denom = mul128 (ann - 1) d + d_p * 3
                in if denom = 0 then Inl Nullopt
                   else let d = (ucast (num div denom) :: u64)
                        in if d > d_prev
                           then (if d - d_prev \<le> 1 then Inr d
                                 else calc_d_loop x y s ann (i + 1) d)
                           else (if d_prev - d \<le> 1 then Inr d
                                 else calc_d_loop x y s ann (i + 1) d))
      else Inl Nullopt)"
  by pat_completeness auto
termination
  by (relation "measure (\<lambda>(x, y, s, ann, i, d). NEWTON_ITERATIONS - i)") auto

definition calc_d :: "u64 \<Rightarrow> u64 \<Rightarrow> u64 \<Rightarrow> error + u64" where
  "calc_d x y amp =
     (let s = x + y in
      if s = 0 then Inr 0
      else calc_d_loop x y s (amp * 4) 0 s)"

subsection \<open>Output balance \<open>y\<close>\<close>

function calc_y_loop :: "u128 \<Rightarrow> u64 \<Rightarrow> u64 \<Rightarrow> nat \<Rightarrow> u64 \<Rightarrow> error + u64" where
  "calc_y_loop c b d i y =
     (if i < NEWTON_ITERATIONS then
        (let y_prev = y;
             num = mul128 y y + c;
             denom = 2 * y + b - d
         in if denom = 0 then Inl Nullopt
            else let y = (ucast (num div ucast denom) :: u64)
                 in if y > y_prev
                    then (if y - y_prev \<le> 1 then Inr y
                          else calc_y_loop c b d (i + 1) y)
                    else (if y_prev - y \<le> 1 then Inr y
                          else calc_y_loop c b d (i + 1) y))
      else Inl Nullopt)"
  by pat_completeness auto
termination
  by (relation "measure (\<lambda>(c, b, d, i, y). NEWTON_ITERATIONS - i)") auto

definition calc_y :: "u64 \<Rightarrow> u64 \<Rightarrow> u64 \<Rightarrow> error + u64" where
  "calc_y x_new d amp =
     (let ann = amp * 4 in
      if 2 * x_new = 0 then Inl DivisionByZero
      else let c = mul128 d d div ucast (2 * x_new) in
        if 2 * ann = 0 then Inl DivisionByZero
        else let c = c * ucast d div ucast (2 * ann) in
          if ann = 0 then Inl DivisionByZero
          else let b = x_new + d div ann
               in calc_y_loop c b d 0 d)"

subsection \<open>Swap simulation\<close>

definition simulate_swap :: "u64 \<Rightarrow> u64 \<Rightarrow> u64 \<Rightarrow> u64 \<Rightarrow> u64 \<Rightarrow> error + u64" where
  "simulate_swap bal_in bal_out amount_in amp fee_bps =
     (case calc_d bal_in bal_out amp of
        Inl e \<Rightarrow> Inl e
      | Inr d \<Rightarrow>
          let new_bal_in = bal_in + amount_in in
          (case calc_y new_bal_in d amp of
             Inl e \<Rightarrow> Inl e
           | Inr new_bal_out \<Rightarrow>
               if new_bal_out \<ge> bal_out then Inr 0
               else let amount_out = bal_out - new_bal_out;
                        fee = amount_out * fee_bps div FEE_DENOMINATOR
                    in Inr (amount_out - fee)))"

subsection \<open>Liquidity\<close>

definition calc_initial_lp :: "u64 \<Rightarrow> u64 \<Rightarrow> error + u64" where
  "calc_initial_lp amount0 amount1 = isqrt128 (mul128 amount0 amount1)"

text \<open>
  \<open>d0\<close> and \<open>d1\<close> are both computed before either is tested, so a trap in either
  computation ends the call; otherwise a \<open>nullopt\<close> in either, or \<open>d0 = 0\<close>, gives
  \<open>nullopt\<close>. \<open>*d1 - *d0\<close> is a 64-bit subtraction.
\<close>

definition calc_lp_tokens ::
  "u64 \<Rightarrow> u64 \<Rightarrow> u64 \<Rightarrow> u64 \<Rightarrow> u64 \<Rightarrow> u64 \<Rightarrow> error + u64" where
  "calc_lp_tokens amt0 amt1 bal0 bal1 lp_supply amp =
     (if lp_supply = 0 then calc_initial_lp amt0 amt1
      else
        let d0 = calc_d bal0 bal1 amp;
            d1 = calc_d (bal0 + amt0) (bal1 + amt1) amp
        in if d0 = Inl DivisionByZero \<or> d1 = Inl DivisionByZero then Inl DivisionByZero
           else (case (d0, d1) of
                   (Inr v0, Inr v1) \<Rightarrow>
                     if v0 = 0 then Inl Nullopt
                     else Inr (ucast (mul128 lp_supply (v1 - v0) div ucast v0))
                 | _ \<Rightarrow> Inl Nullopt))"

record WithdrawResult =
  amount0 :: u64
  amount1 :: u64

definition calc_withdraw :: "u64 \<Rightarrow> u64 \<Rightarrow> u64 \<Rightarrow> u64 \<Rightarrow> error + WithdrawResult" where
  "calc_withdraw lp_amount bal0 bal1 lp_supply =
     (if lp_supply = 0 then Inl Nullopt
      else Inr \<lparr>amount0 = div128 (mul128 bal0 lp_amount) lp_supply,
                amount1 = div128 (mul128 bal1 lp_amount) lp_supply\<rparr>)"

subsection \<open>Amplification ramp\<close>

text \<open>
  \<open>get_current_amp\<close> returns a plain \<open>uint64_t\<close>; the model keeps the result type of the
  other functions so that the one division, by \<open>duration\<close>, shows its unchecked divisor.
\<close>

definition get_current_amp :: "u64 \<Rightarrow> u64 \<Rightarrow> i64 \<Rightarrow> i64 \<Rightarrow> i64 \<Rightarrow> error + u64" where
  "get_current_amp amp target_amp ramp_start ramp_end now =
     (if ramp_end \<le>s now \<or> ramp_end = ramp_start then Inr target_amp
      else if now \<le>s ramp_start then Inr amp
      else
        let elapsed = now - ramp_start;
            duration = ramp_end - ramp_start
        in if duration = 0 then Inl DivisionByZero
           else if target_amp > amp
                then Inr (amp + (target_amp - amp) * elapsed div duration)
                else Inr (amp - (amp - target_amp) * elapsed div duration))"

section \<open>stableswap.hpp\<close>

text \<open>
  The single-header SDK repeats the two-token functions in the same namespace. They are
  modelled separately, with the suffix \<open>_stableswap\<close>. Its \<open>calc_d\<close> multiplies
  \<open>(ann - 1) * d\<close> in 64 bits and checks no divisor.
\<close>

function calc_d_loop_stableswap ::
  "u64 \<Rightarrow> u64 \<Rightarrow> u64 \<Rightarrow> u64 \<Rightarrow> nat \<Rightarrow> u64 \<Rightarrow> error + u64" where
  "calc_d_loop_stableswap x y s ann i d =
     (if i < NEWTON_ITERATIONS then
        (if 2 * x = 0 then Inl DivisionByZero
         else let d_p = (ucast d :: u128) * ucast d div ucast (2 * x) in
           if 2 * y = 0 then Inl DivisionByZero
           else let d_p = d_p * ucast d div ucast (2 * y);
                    d_prev = d;
                    num = ((ucast ann :: u128) * ucast s + d_p * 2) * ucast d;
                    denom = ucast ((ann - 1) * d) + d_p * 3
                in if denom = 0 then Inl DivisionByZero
                   else let d = (ucast (num div denom) :: u64)
                        in if d > d_prev
                           then (if d - d_prev \<le> 1 then Inr d
                                 else calc_d_loop_stableswap x y s ann (i + 1) d)
                           else (if d_prev - d \<le> 1 then Inr d
                                 else calc_d_loop_stableswap x y s ann (i + 1) d))
      else Inl Nullopt)"
  by pat_completeness auto
termination
  by (relation "measure (\<lambda>(x, y, s, ann, i, d). NEWTON_ITERATIONS - i)") auto

definition calc_d_stableswap :: "u64 \<Rightarrow> u64 \<Rightarrow> u64 \<Rightarrow> error + u64" where
  "calc_d_stableswap x y amp =
     (let s = x + y in
      if s = 0 then Inr 0
      else calc_d_loop_stableswap x y s (amp * 4) 0 s)"

function calc_y_loop_stableswap :: "u128 \<Rightarrow> u64 \<Rightarrow> u64 \<Rightarrow> nat \<Rightarrow> u64 \<Rightarrow> error + u64" where
  "calc_y_loop_stableswap c b d i y =
     (if i < NEWTON_ITERATIONS then
        (let y_prev = y;
             num = (ucast y :: u128) * ucast y + c;
             denom = 2 * y + b - d
         in if denom = 0 then Inl DivisionByZero
            else let y = (ucast (num div ucast denom) :: u64)
                 in if y > y_prev
                    then (if y - y_prev \<le> 1 then Inr y
                          else calc_y_loop_stableswap c b d (i + 1) y)
                    else (if y_prev - y \<le> 1 then Inr y
                          else calc_y_loop_stableswap c b d (i + 1) y))
      else Inl Nullopt)"
  by pat_completeness auto
termination
  by (relation "measure (\<lambda>(c, b, d, i, y). NEWTON_ITERATIONS - i)") auto

definition calc_y_stableswap :: "u64 \<Rightarrow> u64 \<Rightarrow> u64 \<Rightarrow> error + u64" where
  "calc_y_stableswap x_new d amp =
     (let ann = amp * 4 in
      if 2 * x_new = 0 then Inl DivisionByZero
      else let c = (ucast d :: u128) * ucast d div ucast (2 * x_new) in
        if 2 * ann = 0 then Inl DivisionByZero
        else let c = c * ucast d div ucast (2 * ann) in
          if ann = 0 then Inl DivisionByZero
          else let b = x_new + d div ann
               in calc_y_loop_stableswap c b d 0 d)"

text \<open>No comparison of the new output balance with \<open>bal_out\<close> before the subtraction.\<close>

definition simulate_swap_stableswap :: "u64 \<Rightarrow> u64 \<Rightarrow> u64 \<Rightarrow> u64 \<Rightarrow> u64 \<Rightarrow> error + u64" where
  "simulate_swap_stableswap bal_in bal_out amount_in amp fee_bps =
     (case calc_d_stableswap bal_in bal_out amp of
        Inl e \<Rightarrow> Inl e
      | Inr d \<Rightarrow>
          let new_bal_in = bal_in + amount_in in
          (case calc_y_stableswap new_bal_in d amp of
             Inl e \<Rightarrow> Inl e
           | Inr new_bal_out \<Rightarrow>
               let amount_out = bal_out - new_bal_out;
                   amount_out = amount_out - (amount_out * fee_bps div 10000)
               in Inr amount_out))"

text \<open>
  The initial-deposit loop of the single header:
  \<open>for (int i = 0; i < 64; i++) { next = (lp + product / lp) / 2; if (next >= lp) break; lp = next; }\<close>
  where \<open>next\<close> is a \<open>uint64_t\<close> and the sum is 128 bits wide.
\<close>

function initial_lp_loop_stableswap :: "u128 \<Rightarrow> nat \<Rightarrow> u64 \<Rightarrow> error + u64" where
  "initial_lp_loop_stableswap product i lp =
     (if i < 64 then
        (if lp = 0 then Inl DivisionByZero
         else let next = (ucast ((ucast lp + product div ucast lp) div 2) :: u64)
              in if next \<ge> lp then Inr lp
                 else initial_lp_loop_stableswap product (i + 1) next)
      else Inr lp)"
  by pat_completeness auto
termination
  by (relation "measure (\<lambda>(product, i, lp). 64 - i)") auto

definition calc_lp_tokens_stableswap ::
  "u64 \<Rightarrow> u64 \<Rightarrow> u64 \<Rightarrow> u64 \<Rightarrow> u64 \<Rightarrow> u64 \<Rightarrow> error + u64" where
  "calc_lp_tokens_stableswap amt0 amt1 bal0 bal1 lp_supply amp =
     (if lp_supply = 0 then
        (let product = (ucast amt0 :: u128) * ucast amt1
         in initial_lp_loop_stableswap product 0 1)
      else
        let d0 = calc_d_stableswap bal0 bal1 amp;
            d1 = calc_d_stableswap (bal0 + amt0) (bal1 + amt1) amp
        in if d0 = Inl DivisionByZero \<or> d1 = Inl DivisionByZero then Inl DivisionByZero
           else (case (d0, d1) of
                   (Inr v0, Inr v1) \<Rightarrow>
                     if v0 = 0 then Inl Nullopt
                     else Inr (ucast ((ucast lp_supply :: u128) * ucast (v1 - v0) div ucast v0))
                 | _ \<Rightarrow> Inl Nullopt))"

text \<open>
  \<open>Pool::get_amp\<close> reads four fields of the account struct; the record keeps those
  four, with the prefix \<open>pool_\<close>. The \<open>int64_t\<close> operands \<open>elapsed\<close> and \<open>duration\<close>
  are converted to \<open>uint64_t\<close> by the multiplication and the division with a
  \<open>uint64_t\<close>.
\<close>

record Pool =
  pool_amp :: u64
  pool_target_amp :: u64
  pool_ramp_start :: i64
  pool_ramp_end :: i64

definition get_amp :: "Pool \<Rightarrow> i64 \<Rightarrow> error + u64" where
  "get_amp p now =
     (if pool_ramp_end p \<le>s now \<or> pool_ramp_end p = pool_ramp_start p
      then Inr (pool_target_amp p)
      else if now \<le>s pool_ramp_start p then Inr (pool_amp p)
      else
        let elapsed = now - pool_ramp_start p;
            duration = pool_ramp_end p - pool_ramp_start p
        in if duration = 0 then Inl DivisionByZero
           else if pool_target_amp p > pool_amp p
                then Inr (pool_amp p + (pool_target_amp p - pool_amp p) * elapsed div duration)
                else Inr (pool_amp p - (pool_amp p - pool_target_amp p) * elapsed div duration))"

declare isqrt_loop.simps [simp del] isqrt128_loop.simps [simp del]
  calc_d_loop.simps [simp del] calc_y_loop.simps [simp del]
  calc_d_loop_stableswap.simps [simp del] calc_y_loop_stableswap.simps [simp del]
  initial_lp_loop_stableswap.simps [simp del]

section \<open>Arithmetic facts\<close>

subsection \<open>Words read as natural numbers\<close>

lemma unat_u64_less: "unat (a :: u64) < 2 ^ 64"
proof -
  have "unat a < 2 ^ LENGTH(64)" by (rule unsigned_less)
  then show ?thesis by simp
qed

lemma unat_ucast_u64_u128: "unat (ucast (a :: u64) :: u128) = unat a"
proof -
  have "unat a < 2 ^ 128"
    using unat_u64_less [of a] by (rule less_trans) simp
  then show ?thesis by (simp add: unsigned_ucast_eq take_bit_nat_eq_self)
qed

lemma unat_ucast_u128_u64:
  "unat (x :: u128) < 2 ^ 64 \<Longrightarrow> unat (ucast x :: u64) = unat x"
  by (simp add: unsigned_ucast_eq take_bit_nat_eq_self)

lemma unat_ucast_u128_u64_mod: "unat (ucast (x :: u128) :: u64) = unat x mod 2 ^ 64"
  by (simp add: unsigned_ucast_eq take_bit_eq_mod)

lemma word_le_one_iff: "w \<le> (1::'a::len word) \<longleftrightarrow> w = 0 \<or> w = 1"
proof -
  have "w \<le> 1 \<longleftrightarrow> unat w \<le> 1" by (simp add: word_le_nat_alt)
  also have "\<dots> \<longleftrightarrow> unat w = 0 \<or> unat w = 1" by auto
  also have "\<dots> \<longleftrightarrow> w = 0 \<or> w = 1"
    by (metis unat_1 unsigned_eq_0_iff word_unat_eq_iff)
  finally show ?thesis .
qed

lemma ucast_minus_one_u64: "(ucast (- 1 :: u64) :: u128) = 18446744073709551615"
  by (simp add: unsigned_minus_1_eq_mask mask_eq_exp_minus_1)

text \<open>The exact product: \<open>mul128\<close> never wraps, and never reaches \<open>2\<^sup>1\<^sup>2\<^sup>8 - 1\<close>.\<close>

lemma unat_mul128: "unat (mul128 a b) = unat a * unat b"
proof -
  have "unat a * unat b < 2 ^ 64 * 2 ^ 64"
    using unat_u64_less [of a] unat_u64_less [of b] by (intro mult_strict_mono) simp_all
  then have "unat (ucast a :: u128) * unat (ucast b :: u128) < 2 ^ LENGTH(128)"
    by (simp add: unat_ucast_u64_u128)
  then have "unat ((ucast a :: u128) * ucast b) = unat (ucast a :: u128) * unat (ucast b :: u128)"
    by (simp add: unat_mult_lem [THEN iffD1])
  then show ?thesis by (simp add: mul128_def unat_ucast_u64_u128)
qed

lemma mul128_not_max: "unat (mul128 a b) + 1 < 2 ^ 128"
proof -
  have "unat a \<le> 2 ^ 64 - 1" "unat b \<le> 2 ^ 64 - 1"
    using unat_u64_less [of a] unat_u64_less [of b] by simp_all
  then have "unat a * unat b \<le> (2 ^ 64 - 1) * (2 ^ 64 - 1)"
    by (rule mult_mono) simp_all
  then show ?thesis by (simp add: unat_mul128)
qed

lemma div128_mul128:
  assumes "l \<noteq> 0"
  shows "div128 (mul128 b l) l = b"
proof -
  have "0 < unat l" using assms by (simp add: unat_gt_0)
  have "unat (mul128 b l div ucast l) = unat b * unat l div unat l"
    by (simp add: unat_div unat_mul128 unat_ucast_u64_u128)
  also have "\<dots> = unat b" using \<open>0 < unat l\<close> by simp
  finally have "unat (ucast (mul128 b l div ucast l) :: u64) = unat b"
    using unat_u64_less [of b] by (simp add: unat_ucast_u128_u64)
  then show ?thesis using assms by (simp add: div128_def word_unat_eq_iff)
qed

subsection \<open>One Newton step for the square root, on natural numbers\<close>

lemma four_mul_le_square: "4 * a * b \<le> (a + b)\<^sup>2" for a b :: nat
proof -
  have "0 \<le> (int a - int b)\<^sup>2" by simp
  then have "4 * int a * int b \<le> (int a + int b)\<^sup>2"
    by (simp add: power2_eq_square algebra_simps)
  then have "int (4 * a * b) \<le> int ((a + b)\<^sup>2)" by simp
  then show ?thesis by (simp only: of_nat_le_iff)
qed

text \<open>The next iterate is never below the root.\<close>

lemma newton_step_upper:
  fixes n x :: nat
  assumes "0 < x"
  shows "n < ((x + n div x) div 2 + 1)\<^sup>2"
proof -
  define q where "q = n div x"
  define y where "y = (x + q) div 2"
  have "n < x * (q + 1)"
    using assms unfolding q_def by (metis Suc_eq_plus1 dividend_less_times_div mult_Suc_right)
  then have "4 * n < 4 * x * (q + 1)" by simp
  also have "\<dots> \<le> (x + (q + 1))\<^sup>2" by (rule four_mul_le_square)
  also have "\<dots> \<le> (2 * (y + 1))\<^sup>2"
    unfolding y_def by (rule power_mono) auto
  also have "\<dots> = 4 * (y + 1)\<^sup>2" by (simp add: power2_eq_square)
  finally show ?thesis unfolding y_def q_def by simp
qed

text \<open>When the iterate stops decreasing, the current value is not above the root.\<close>

lemma newton_exit:
  fixes n x :: nat
  assumes "0 < x" and "x \<le> (x + n div x) div 2"
  shows "x\<^sup>2 \<le> n"
proof -
  from assms(2) have "x \<le> n div x" by linarith
  then have "x * x \<le> x * (n div x)" by simp
  also have "\<dots> \<le> n" by simp
  finally show ?thesis by (simp add: power2_eq_square)
qed

text \<open>The sum \<open>x + n / x\<close> stays within \<open>n + 1\<close>: it wraps only when \<open>n\<close> is the largest value.\<close>

lemma newton_no_overflow:
  fixes n y :: nat
  assumes "0 < y" and "y \<le> n"
  shows "y + n div y \<le> n + 1"
proof -
  define q where "q = n div y"
  have "1 \<le> q" unfolding q_def using assms by (simp add: div_greater_zero_iff Suc_leI)
  obtain a where a: "y = Suc a" using assms(1) by (cases y) auto
  obtain b where b: "q = Suc b" using \<open>1 \<le> q\<close> by (cases q) auto
  have "y + q \<le> y * q + 1" unfolding a b by simp
  also have "y * q \<le> n" unfolding q_def by simp
  finally show ?thesis unfolding q_def by simp
qed

lemma word_newton_step:
  fixes n y :: "'a::len word"
  assumes two: "unat (2 :: 'a word) = 2"
    and "y \<noteq> 0" and "y \<le> n" and "unat n + 1 < 2 ^ LENGTH('a)"
  shows "unat ((y + n div y) div 2) = (unat y + unat n div unat y) div 2"
proof -
  have pos: "0 < unat y" using assms(2) by (simp add: unat_gt_0)
  have le: "unat y \<le> unat n" using assms(3) by (simp add: word_le_nat_alt)
  have "unat y + unat n div unat y \<le> unat n + 1"
    using pos le by (rule newton_no_overflow)
  then have "unat y + unat (n div y) < 2 ^ LENGTH('a)"
    using assms(4) by (simp add: unat_div)
  then have "unat (y + n div y) = unat y + unat (n div y)"
    by (simp add: unat_add_lem)
  moreover have "unat ((y + n div y) div 2) = unat (y + n div y) div unat (2 :: 'a word)"
    by (rule unat_div)
  ultimately show ?thesis by (simp only: two unat_div)
qed

lemma square_less_imp_less_pow:
  fixes r :: nat
  assumes "r\<^sup>2 < 2 ^ 128"
  shows "r < 2 ^ 64"
proof (rule ccontr)
  assume "\<not> r < 2 ^ 64"
  then have "(2 ^ 64)\<^sup>2 \<le> r\<^sup>2" by (intro power_mono) simp_all
  with assms show False by simp
qed

section \<open>Evaluation on concrete inputs\<close>

lemmas eval_simps =
  calc_d_def calc_d_loop.simps calc_y_def calc_y_loop.simps
  calc_d_stableswap_def calc_d_loop_stableswap.simps
  calc_y_stableswap_def calc_y_loop_stableswap.simps
  NEWTON_ITERATIONS_def FEE_DENOMINATOR_def mul128_def Let_def word_le_one_iff

section \<open>Integer square roots\<close>

text \<open>
  For every \<open>n\<close> below the largest value of the type the loop ends with the integer
  square root: \<open>x\<close> stays nonzero and at most \<open>n\<close>, \<open>n < (x + 1)\<^sup>2\<close> holds throughout,
  and \<open>y\<close> is the Newton iterate of \<open>x\<close> computed without wrap-around.
\<close>

lemma isqrt_loop_correct:
  assumes "unat n + 1 < 2 ^ 64" and "x \<noteq> 0" and "x \<le> n"
    and "unat n < (unat x + 1)\<^sup>2"
    and "unat y = (unat x + unat n div unat x) div 2"
  shows "\<exists>r. isqrt_loop n x y = Inr r \<and> (unat r)\<^sup>2 \<le> unat n \<and> unat n < (unat r + 1)\<^sup>2"
  using assms
proof (induction n x y rule: isqrt_loop.induct)
  case (1 n x y)
  have xpos: "0 < unat x" using "1.prems"(2) by (simp add: unat_gt_0)
  show ?case
  proof (cases "y < x")
    case False
    then have "unat x \<le> (unat x + unat n div unat x) div 2"
      using "1.prems"(5) by (simp add: word_less_nat_alt)
    with xpos have "(unat x)\<^sup>2 \<le> unat n" by (rule newton_exit)
    with False "1.prems"(4) show ?thesis by (simp add: isqrt_loop.simps)
  next
    case True
    have upper: "unat n < (unat y + 1)\<^sup>2"
      using newton_step_upper [OF xpos, of "unat n"] "1.prems"(5) by simp
    have npos: "0 < unat n"
      using xpos "1.prems"(3) by (simp add: word_le_nat_alt)
    have y0: "y \<noteq> 0"
    proof
      assume "y = 0"
      with upper npos show False by simp
    qed
    have yn: "y \<le> n" using True "1.prems"(3) by simp
    have step: "unat ((y + n div y) div 2) = (unat y + unat n div unat y) div 2"
      using y0 yn "1.prems"(1) by (intro word_newton_step) simp_all
    have "\<exists>r. isqrt_loop n y ((y + n div y) div 2) = Inr r
        \<and> (unat r)\<^sup>2 \<le> unat n \<and> unat n < (unat r + 1)\<^sup>2"
      using True y0 "1.prems"(1) yn upper step by (intro "1.IH") simp_all
    with True y0 show ?thesis by (simp add: isqrt_loop.simps [of n x y])
  qed
qed

lemma isqrt_correct:
  assumes "unat n + 1 < 2 ^ 64"
  shows "\<exists>r. isqrt n = Inr r \<and> (unat r)\<^sup>2 \<le> unat n \<and> unat n < (unat r + 1)\<^sup>2"
proof -
  consider "n = 0" | "n \<noteq> 0" "n \<le> 3" | "n \<noteq> 0" "\<not> n \<le> 3" by blast
  then show ?thesis
  proof cases
    case 1
    then show ?thesis by (simp add: isqrt_def)
  next
    case 2
    then have "0 < unat n" "unat n \<le> 3"
      by (simp_all add: unat_gt_0 word_le_nat_alt)
    with 2 show ?thesis by (simp add: isqrt_def power2_eq_square)
  next
    case 3
    have "unat (n + 1) = unat n + 1"
      using assms by (simp add: unat_add_lem [THEN iffD1])
    then have y: "unat ((n + 1) div 2) = (unat n + unat n div unat n) div 2"
      using 3(1) by (simp add: unat_div unat_gt_0)
    have "unat n < (unat n + 1)\<^sup>2" by (simp add: power2_eq_square)
    with assms 3 y have "\<exists>r. isqrt_loop n n ((n + 1) div 2) = Inr r
        \<and> (unat r)\<^sup>2 \<le> unat n \<and> unat n < (unat r + 1)\<^sup>2"
      by (intro isqrt_loop_correct) simp_all
    with 3 show ?thesis by (simp add: isqrt_def)
  qed
qed

lemma isqrt128_loop_correct:
  assumes "unat n + 1 < 2 ^ 128" and "x \<noteq> 0" and "x \<le> n"
    and "unat n < (unat x + 1)\<^sup>2"
    and "unat y = (unat x + unat n div unat x) div 2"
  shows "\<exists>r. isqrt128_loop n x y = Inr r \<and> (unat r)\<^sup>2 \<le> unat n \<and> unat n < (unat r + 1)\<^sup>2"
  using assms
proof (induction n x y rule: isqrt128_loop.induct)
  case (1 n x y)
  have xpos: "0 < unat x" using "1.prems"(2) by (simp add: unat_gt_0)
  show ?case
  proof (cases "y < x")
    case False
    then have "unat x \<le> (unat x + unat n div unat x) div 2"
      using "1.prems"(5) by (simp add: word_less_nat_alt)
    with xpos have "(unat x)\<^sup>2 \<le> unat n" by (rule newton_exit)
    with False "1.prems"(4) show ?thesis by (simp add: isqrt128_loop.simps)
  next
    case True
    have upper: "unat n < (unat y + 1)\<^sup>2"
      using newton_step_upper [OF xpos, of "unat n"] "1.prems"(5) by simp
    have npos: "0 < unat n"
      using xpos "1.prems"(3) by (simp add: word_le_nat_alt)
    have y0: "y \<noteq> 0"
    proof
      assume "y = 0"
      with upper npos show False by simp
    qed
    have yn: "y \<le> n" using True "1.prems"(3) by simp
    have step: "unat ((y + n div y) div 2) = (unat y + unat n div unat y) div 2"
      using y0 yn "1.prems"(1) by (intro word_newton_step) simp_all
    have "\<exists>r. isqrt128_loop n y ((y + n div y) div 2) = Inr r
        \<and> (unat r)\<^sup>2 \<le> unat n \<and> unat n < (unat r + 1)\<^sup>2"
      using True y0 "1.prems"(1) yn upper step by (intro "1.IH") simp_all
    with True y0 show ?thesis by (simp add: isqrt128_loop.simps [of n x y])
  qed
qed

lemma isqrt128_correct:
  assumes "unat n + 1 < 2 ^ 128"
  shows "\<exists>r. isqrt128 n = Inr r \<and> (unat r)\<^sup>2 \<le> unat n \<and> unat n < (unat r + 1)\<^sup>2"
proof -
  consider "n = 0" | "n \<noteq> 0" "n \<le> 3" | "n \<noteq> 0" "\<not> n \<le> 3" by blast
  then show ?thesis
  proof cases
    case 1
    then show ?thesis by (simp add: isqrt128_def)
  next
    case 2
    then have "0 < unat n" "unat n \<le> 3"
      by (simp_all add: unat_gt_0 word_le_nat_alt)
    with 2 show ?thesis by (simp add: isqrt128_def power2_eq_square)
  next
    case 3
    have "unat (n + 1) = unat n + 1"
      using assms by (simp add: unat_add_lem [THEN iffD1])
    then have y: "unat ((n + 1) div 2) = (unat n + unat n div unat n) div 2"
      using 3(1) by (simp add: unat_div unat_gt_0)
    have "unat n < (unat n + 1)\<^sup>2" by (simp add: power2_eq_square)
    with assms 3 y obtain x where x: "isqrt128_loop n n ((n + 1) div 2) = Inr x"
      "(unat x)\<^sup>2 \<le> unat n" "unat n < (unat x + 1)\<^sup>2"
      using isqrt128_loop_correct [of n n "(n + 1) div 2"] by auto
    have "(unat x)\<^sup>2 < 2 ^ 128" using x(2) assms by simp
    then have "unat x < 2 ^ 64" by (rule square_less_imp_less_pow)
    then have "unat (ucast x :: u64) = unat x"
      by (rule unat_ucast_u128_u64)
    with 3 x show ?thesis by (simp add: isqrt128_def)
  qed
qed

text \<open>
  Claim C8: for every \<open>n\<close>, \<open>isqrt n\<close> and \<open>isqrt128 n\<close> end with the integer square root
  of \<open>n\<close>. That holds below the largest value of each type (\<open>isqrt_correct\<close>,
  \<open>isqrt128_correct\<close>). At the largest value, \<open>x + 1\<close> wraps to \<open>0\<close>, the first iterate
  \<open>y\<close> is \<open>0\<close>, the loop is entered and divides \<open>n\<close> by \<open>0\<close>: neither function returns
  the root \<open>4294967295\<close>, respectively \<open>18446744073709551615\<close>.
\<close>

theorem isqrt_max_divides_by_zero:
  "isqrt 18446744073709551615 = Inl DivisionByZero
   \<and> isqrt128 340282366920938463463374607431768211455 = Inl DivisionByZero"
  by (simp add: isqrt_def isqrt128_def isqrt_loop.simps isqrt128_loop.simps)

section \<open>The invariant solver\<close>

lemma calc_d_one_zero_balance:
  assumes "(x = 0 \<and> y \<noteq> 0) \<or> (x \<noteq> 0 \<and> y = 0)"
  shows "calc_d x y amp = Inl DivisionByZero"
    and "calc_d_stableswap x y amp = Inl DivisionByZero"
  using assms
  by (auto simp: calc_d_def calc_d_loop.simps [of x y _ _ 0]
      calc_d_stableswap_def calc_d_loop_stableswap.simps [of x y _ _ 0]
      NEWTON_ITERATIONS_def Let_def)

text \<open>
  Claim C1: with exactly one balance zero, \<open>calc_d\<close> returns a failure and never divides
  by zero unguarded. In both headers the first pass of the loop divides by \<open>2 * x\<close> and
  then by \<open>2 * y\<close> with no check, so with exactly one balance zero the call divides by
  zero, for every \<open>amp\<close> (\<open>calc_d_one_zero_balance\<close>); it does not return
  \<open>nullopt\<close>. Evaluated at the balances \<open>(0, 1)\<close> and \<open>(1, 0)\<close> with \<open>amp = 1\<close>:
\<close>

theorem calc_d_zero_balance_divides_by_zero:
  "calc_d 0 1 1 = Inl DivisionByZero \<and> calc_d 1 0 1 = Inl DivisionByZero
   \<and> calc_d_stableswap 0 1 1 = Inl DivisionByZero
   \<and> calc_d_stableswap 1 0 1 = Inl DivisionByZero"
  by (simp add: calc_d_one_zero_balance)

text \<open>
  Claim C10: the sum \<open>s = x + y\<close> is a 64-bit addition. For nonzero balances whose true
  sum is a multiple of \<open>2\<^sup>6\<^sup>4\<close>, \<open>calc_d\<close> returns \<open>0\<close> at once, in both headers; and
  whenever the true sum exceeds \<open>2\<^sup>6\<^sup>4 - 1\<close>, the loop starts from, and iterates with,
  the sum reduced by \<open>2\<^sup>6\<^sup>4\<close>.
\<close>

theorem calc_d_wrapped_sum:
  assumes "x \<noteq> 0" and "y \<noteq> 0"
  shows "((unat x + unat y) mod 2 ^ 64 = 0 \<longrightarrow>
            calc_d x y amp = Inr 0 \<and> calc_d_stableswap x y amp = Inr 0)
       \<and> (2 ^ 64 \<le> unat x + unat y \<longrightarrow>
            (\<exists>s. unat s = unat x + unat y - 2 ^ 64
               \<and> calc_d x y amp = (if s = 0 then Inr 0 else calc_d_loop x y s (amp * 4) 0 s)
               \<and> calc_d_stableswap x y amp =
                   (if s = 0 then Inr 0 else calc_d_loop_stableswap x y s (amp * 4) 0 s)))"
proof (intro conjI impI)
  assume "(unat x + unat y) mod 2 ^ 64 = 0"
  then have "unat (x + y) = 0" by (simp add: unat_word_ariths)
  then have "x + y = 0" by (simp add: unsigned_eq_0_iff)
  then show "calc_d x y amp = Inr 0" "calc_d_stableswap x y amp = Inr 0"
    by (simp_all add: calc_d_def calc_d_stableswap_def)
next
  assume ge: "2 ^ 64 \<le> unat x + unat y"
  have "unat x + unat y < 2 ^ 64 + 2 ^ 64"
    using unat_u64_less [of x] unat_u64_less [of y] by (rule add_strict_mono)
  with ge have "(unat x + unat y) mod 2 ^ 64 = unat x + unat y - 2 ^ 64"
    by (simp add: mod_if le_mod_geq)
  then have "unat (x + y) = unat x + unat y - 2 ^ 64"
    by (simp add: unat_word_ariths)
  then show "\<exists>s. unat s = unat x + unat y - 2 ^ 64
       \<and> calc_d x y amp = (if s = 0 then Inr 0 else calc_d_loop x y s (amp * 4) 0 s)
       \<and> calc_d_stableswap x y amp =
           (if s = 0 then Inr 0 else calc_d_loop_stableswap x y s (amp * 4) 0 s)"
    by (intro exI [of _ "x + y"]) (simp add: calc_d_def calc_d_stableswap_def Let_def)
qed

theorem calc_d_wrapped_sum_witness:
  "(9223372036854775808 :: u64) \<noteq> 0
   \<and> (unat (9223372036854775808 :: u64) + unat (9223372036854775808 :: u64)) mod 2 ^ 64 = 0
   \<and> calc_d 9223372036854775808 9223372036854775808 100 = Inr 0
   \<and> calc_d_stableswap 9223372036854775808 9223372036854775808 100 = Inr 0
   \<and> (18446744073709551615 :: u64) \<noteq> 0 \<and> (2 :: u64) \<noteq> 0
   \<and> 2 ^ 64 \<le> unat (18446744073709551615 :: u64) + unat (2 :: u64)
   \<and> calc_d 18446744073709551615 2 1 = calc_d_loop 18446744073709551615 2 1 4 0 1
   \<and> calc_d 18446744073709551615 2 1 = Inr 1
   \<and> calc_d_stableswap 18446744073709551615 2 1 = Inr 1"
proof -
  have nz: "(18446744073709551615 :: u64) \<noteq> 0" "(2 :: u64) \<noteq> 0" by simp_all
  have ge: "2 ^ 64 \<le> unat (18446744073709551615 :: u64) + unat (2 :: u64)" by simp
  from calc_d_wrapped_sum [OF nz, of 1] ge
  obtain s where s: "unat s = unat (18446744073709551615 :: u64) + unat (2 :: u64) - 2 ^ 64"
    "calc_d 18446744073709551615 2 1
       = (if s = 0 then Inr 0 else calc_d_loop 18446744073709551615 2 s (1 * 4) 0 s)"
    "calc_d_stableswap 18446744073709551615 2 1
       = (if s = 0 then Inr 0 else calc_d_loop_stableswap 18446744073709551615 2 s (1 * 4) 0 s)"
    by blast
  from s(1) have "unat s = unat (1 :: u64)" by simp
  then have "s = 1" by (simp only: word_unat_eq_iff)
  have "calc_d_loop 18446744073709551615 2 1 (1 * 4) 0 1 = Inr 1"
    by (simp add: eval_simps)
  moreover have "calc_d_loop_stableswap 18446744073709551615 2 1 (1 * 4) 0 1 = Inr 1"
    by (simp add: eval_simps)
  ultimately have wrapped: "calc_d 18446744073709551615 2 1 = calc_d_loop 18446744073709551615 2 1 4 0 1
      \<and> calc_d 18446744073709551615 2 1 = Inr 1
      \<and> calc_d_stableswap 18446744073709551615 2 1 = Inr 1"
    using s(2,3) unfolding \<open>s = 1\<close> by simp
  have "(9223372036854775808 :: u64) \<noteq> 0
      \<and> (unat (9223372036854775808 :: u64) + unat (9223372036854775808 :: u64)) mod 2 ^ 64 = 0
      \<and> calc_d 9223372036854775808 9223372036854775808 100 = Inr 0
      \<and> calc_d_stableswap 9223372036854775808 9223372036854775808 100 = Inr 0"
    using calc_d_wrapped_sum [of 9223372036854775808 9223372036854775808 100] by simp
  with wrapped nz ge show ?thesis by blast
qed

text \<open>
  Where the denominator of the Newton step is \<open>0\<close>, \<open>math.hpp\<close> returns \<open>nullopt\<close> and
  the single header divides.
\<close>

lemma calc_d_guard_differs:
  "calc_d 5000000000000000000 2 1 = Inl Nullopt
   \<and> calc_d_stableswap 5000000000000000000 2 1 = Inl DivisionByZero"
  by (simp add: eval_simps)

text \<open>
  Claim C9: the two definitions of \<open>calc_d\<close> return the same result on every input.
  The single header computes \<open>(ann - 1) * d\<close> in 64 bits where \<open>math.hpp\<close> uses the
  128-bit product, so the denominators differ as soon as that product passes
  \<open>2\<^sup>6\<^sup>4\<close>. At balances \<open>(2000000000000000, 1000000)\<close> with \<open>amp = 10000\<close> both
  converge, to different values:
\<close>

theorem calc_d_versions_differ:
  "calc_d 2000000000000000 1000000 10000 = Inr 84939747866578
   \<and> calc_d_stableswap 2000000000000000 1000000 10000 = Inr 84939747866573"
  by (simp add: eval_simps)

section \<open>Swap simulation\<close>

text \<open>
  In \<open>math.hpp\<close> the subtraction \<open>bal_out - new_bal_out\<close> is reached only below
  \<open>bal_out\<close>, so it never wraps; at or above \<open>bal_out\<close> the result is \<open>0\<close>.
\<close>

lemma simulate_swap_clamp:
  assumes "calc_d bal_in bal_out amp = Inr d"
    and "calc_y (bal_in + amount_in) d amp = Inr new_bal_out"
  shows "bal_out \<le> new_bal_out \<Longrightarrow>
           simulate_swap bal_in bal_out amount_in amp fee_bps = Inr 0"
    and "new_bal_out < bal_out \<Longrightarrow>
           \<exists>amount_out. unat amount_out = unat bal_out - unat new_bal_out
             \<and> simulate_swap bal_in bal_out amount_in amp fee_bps
                 = Inr (amount_out - amount_out * fee_bps div FEE_DENOMINATOR)"
proof -
  show "bal_out \<le> new_bal_out \<Longrightarrow>
           simulate_swap bal_in bal_out amount_in amp fee_bps = Inr 0"
    using assms by (simp add: simulate_swap_def)
  assume lt: "new_bal_out < bal_out"
  then have "unat (bal_out - new_bal_out) = unat bal_out - unat new_bal_out"
    by (intro unat_sub) simp
  with lt assms show "\<exists>amount_out. unat amount_out = unat bal_out - unat new_bal_out
             \<and> simulate_swap bal_in bal_out amount_in amp fee_bps
                 = Inr (amount_out - amount_out * fee_bps div FEE_DENOMINATOR)"
    by (intro exI [of _ "bal_out - new_bal_out"])
      (simp add: simulate_swap_def Let_def not_le [symmetric])
qed

text \<open>
  Claim C3: in \<open>simulate_swap\<close>, when \<open>calc_d\<close> and \<open>calc_y\<close> succeed and the new output
  balance is at least \<open>bal_out\<close>, the result is \<open>0\<close> and the subtraction never wraps.
  \<open>math.hpp\<close> does so (\<open>simulate_swap_clamp\<close>). The \<open>simulate_swap\<close> of the single
  header subtracts without the comparison: for \<open>bal_in = bal_out = 10\<close>,
  \<open>amount_in = 2\<^sup>6\<^sup>4 - 5\<close>, \<open>amp = 1\<close> and no fee, the new input balance is \<open>5\<close>, both
  solvers succeed, the new output balance is \<open>16 > 10\<close>, and the result is the wrapped
  difference \<open>2\<^sup>6\<^sup>4 - 6\<close>, where \<open>math.hpp\<close> returns \<open>0\<close>.
\<close>

theorem simulate_swap_stableswap_wraps:
  "calc_d_stableswap 10 10 1 = Inr 20
   \<and> (10 :: u64) + 18446744073709551611 = 5
   \<and> calc_y_stableswap 5 20 1 = Inr 16
   \<and> simulate_swap_stableswap 10 10 18446744073709551611 1 0 = Inr 18446744073709551610
   \<and> simulate_swap 10 10 18446744073709551611 1 0 = Inr 0"
proof -
  have n: "(18446744073709551621 :: u64) = 5" by simp
  have a: "calc_d_stableswap 10 10 1 = Inr 20" by (simp add: eval_simps)
  have b: "calc_y_stableswap 5 20 1 = Inr 16" by (simp add: eval_simps)
  have c: "calc_d 10 10 1 = Inr 20" by (simp add: eval_simps)
  have d: "calc_y 5 20 1 = Inr 16" by (simp add: eval_simps)
  have b': "calc_y_stableswap 18446744073709551621 20 1 = Inr 16"
    using b by (simp only: n)
  have d': "calc_y 18446744073709551621 20 1 = Inr 16"
    using d by (simp only: n)
  show ?thesis
    by (simp add: a b b' c d' simulate_swap_stableswap_def simulate_swap_def)
qed

text \<open>
  The same happens without any wrap of the input balance, on a strongly imbalanced pool
  where the single header's \<open>calc_d\<close> converges to a value of its own.
\<close>

lemma simulate_swap_stableswap_wraps_imbalanced:
  "calc_d_stableswap 500000 500000000000000 100000 = Inr 58012845365406
   \<and> calc_y_stableswap 500001 58012845365406 100000 = Inr 523872958618214
   \<and> simulate_swap_stableswap 500000 500000000000000 1 100000 0 = Inr 18446720200750933402"
proof -
  have a: "calc_d_stableswap 500000 500000000000000 100000 = Inr 58012845365406"
    by (simp add: eval_simps)
  have b: "calc_y_stableswap 500001 58012845365406 100000 = Inr 523872958618214"
    by (simp add: eval_simps)
  show ?thesis by (simp add: a b simulate_swap_stableswap_def)
qed

text \<open>
  As long as the product \<open>amount_out * fee_bps\<close> fits in 64 bits, a higher fee rate
  never returns more; \<open>simulate_swap\<close> with fee \<open>0\<close> gives the gross output.
\<close>

lemma fee_value:
  assumes "unat a * unat F < 2 ^ 64" and "F \<le> 10000"
  shows "unat (a - a * F div FEE_DENOMINATOR) = unat a - unat a * unat F div 10000"
proof -
  have F: "unat F \<le> 10000" using assms(2) by (simp add: word_le_nat_alt)
  have "unat (a * F) = unat a * unat F"
    using assms(1) by (simp add: unat_mult_lem [THEN iffD1])
  then have fee: "unat (a * F div FEE_DENOMINATOR) = unat a * unat F div 10000"
    by (simp add: unat_div FEE_DENOMINATOR_def)
  have "unat a * unat F div 10000 \<le> unat a * 10000 div 10000"
    using F by (intro div_le_mono mult_le_mono2)
  then have "unat (a * F div FEE_DENOMINATOR) \<le> unat a"
    using fee by simp
  then have "a * F div FEE_DENOMINATOR \<le> a" by (simp add: word_le_nat_alt)
  then have "unat (a - a * F div FEE_DENOMINATOR) = unat a - unat (a * F div FEE_DENOMINATOR)"
    by (rule unat_sub)
  with fee show ?thesis by simp
qed

lemma simulate_swap_fee_monotone_without_overflow:
  assumes "F1 \<le> F2" and "F2 \<le> 10000"
    and gross: "simulate_swap bal_in bal_out amount_in amp 0 = Inr g"
    and fits: "unat g * unat F2 < 2 ^ 64"
    and r1: "simulate_swap bal_in bal_out amount_in amp F1 = Inr r1"
    and r2: "simulate_swap bal_in bal_out amount_in amp F2 = Inr r2"
  shows "r2 \<le> r1"
proof -
  obtain d where d: "calc_d bal_in bal_out amp = Inr d"
    using gross by (cases "calc_d bal_in bal_out amp") (simp_all add: simulate_swap_def)
  obtain nbo where nbo: "calc_y (bal_in + amount_in) d amp = Inr nbo"
    using gross d by (cases "calc_y (bal_in + amount_in) d amp") (simp_all add: simulate_swap_def)
  show ?thesis
  proof (cases "bal_out \<le> nbo")
    case True
    with d nbo r1 r2 show ?thesis by (simp add: simulate_swap_def)
  next
    case False
    from False d nbo gross have g: "g = bal_out - nbo"
      by (simp add: simulate_swap_def Let_def)
    from False d nbo r1 g have v1: "r1 = g - g * F1 div FEE_DENOMINATOR"
      by (simp add: simulate_swap_def Let_def)
    from False d nbo r2 g have v2: "r2 = g - g * F2 div FEE_DENOMINATOR"
      by (simp add: simulate_swap_def Let_def)
    have le: "unat F1 \<le> unat F2" using assms(1) by (simp add: word_le_nat_alt)
    then have "unat g * unat F1 \<le> unat g * unat F2" by (rule mult_le_mono2)
    from this fits have fits1: "unat g * unat F1 < 2 ^ 64" by (rule le_less_trans)
    have "F1 \<le> 10000" using assms(1,2) by simp
    with fits1 have u1: "unat r1 = unat g - unat g * unat F1 div 10000"
      unfolding v1 by (rule fee_value)
    have u2: "unat r2 = unat g - unat g * unat F2 div 10000"
      unfolding v2 using fits assms(2) by (rule fee_value)
    have "unat g * unat F1 div 10000 \<le> unat g * unat F2 div 10000"
      using le by (intro div_le_mono mult_le_mono2)
    then have "unat r2 \<le> unat r1" unfolding u1 u2 by (rule diff_le_mono2)
    then show ?thesis by (simp add: word_le_nat_alt)
  qed
qed

text \<open>
  Claim C6: for fee rates \<open>F1 \<le> F2 \<le> 10000\<close> and otherwise equal inputs, the result
  with \<open>F1\<close> is at least the result with \<open>F2\<close>. The fee is computed as the 64-bit
  product \<open>amount_out * fee_bps\<close> divided by \<open>10000\<close>, and the product wraps once it
  passes \<open>2\<^sup>6\<^sup>4\<close>. With balances \<open>5 \<times> 10\<^sup>1\<^sup>7\<close> each, \<open>amount_in = 4 \<times> 10\<^sup>1\<^sup>7\<close> and
  \<open>amp = 10\<close> the gross output is \<open>371117865835577880\<close>; at 30 basis points the
  product fits, at 50 it wraps, and the swap at 50 basis points returns more than the
  swap at 30.
\<close>

theorem simulate_swap_fee_not_monotone:
  "simulate_swap 500000000000000000 500000000000000000 400000000000000000 10 30
     = Inr 370004512238071147
   \<and> simulate_swap 500000000000000000 500000000000000000 400000000000000000 10 50
     = Inr 371106950913770946
   \<and> (30 :: u64) \<le> 50 \<and> (50 :: u64) \<le> 10000
   \<and> (370004512238071147 :: u64) < 371106950913770946"
proof -
  have a: "calc_d 500000000000000000 500000000000000000 10 = Inr 1000000000000000000"
    by (simp add: eval_simps)
  have b: "calc_y 900000000000000000 1000000000000000000 10 = Inr 128882134164422120"
    by (simp add: eval_simps)
  show ?thesis
    by (simp add: a b simulate_swap_def FEE_DENOMINATOR_def)
qed

section \<open>Liquidity\<close>

lemma calc_lp_tokens_initial:
  "\<exists>r. calc_lp_tokens amt0 amt1 bal0 bal1 0 amp = Inr r
     \<and> (unat r)\<^sup>2 \<le> unat amt0 * unat amt1 \<and> unat amt0 * unat amt1 < (unat r + 1)\<^sup>2"
  using isqrt128_correct [OF mul128_not_max, of amt0 amt1]
  by (simp add: calc_lp_tokens_def calc_initial_lp_def unat_mul128)

text \<open>
  The initial-deposit loop of the single header: for a nonzero product below \<open>2\<^sup>6\<^sup>4\<close> the
  first iterate \<open>(1 + product) / 2\<close> is at least \<open>1\<close>, so the loop is left with \<open>lp = 1\<close>;
  for a zero product the loop continues with \<open>lp = 0\<close> and divides by it.
\<close>

lemma stableswap_initial_lp_is_one:
  assumes "amt0 \<noteq> 0" and "amt1 \<noteq> 0" and "unat amt0 * unat amt1 < 2 ^ 64"
  shows "calc_lp_tokens_stableswap amt0 amt1 bal0 bal1 0 amp = Inr 1"
proof -
  define product where "product = mul128 amt0 amt1"
  have p: "unat product = unat amt0 * unat amt1"
    unfolding product_def by (rule unat_mul128)
  have "0 < unat amt0" "0 < unat amt1"
    using assms(1,2) by (simp_all add: unat_gt_0)
  then have pos: "1 \<le> unat product" unfolding p by (simp add: Suc_leI)
  have small: "unat product < 2 ^ 64" unfolding p by (rule assms(3))
  have "unat (1 :: u128) + unat product < 2 ^ LENGTH(128)"
    using small by simp
  then have "unat (1 + product) = 1 + unat product"
    by (simp add: unat_add_lem [THEN iffD1])
  then have half: "unat ((1 + product) div 2) = (1 + unat product) div 2"
    by (simp add: unat_div)
  have "(1 + unat product) div 2 < 2 ^ 64" using small by simp
  then have "unat (ucast ((1 + product) div 2) :: u64) = (1 + unat product) div 2"
    using half by (simp add: unat_ucast_u128_u64)
  then have "1 \<le> unat (ucast ((1 + product) div 2) :: u64)"
    using pos by simp
  then have "(1 :: u64) \<le> ucast ((1 + product) div 2)"
    by (simp add: word_le_nat_alt)
  then show ?thesis
    by (simp add: calc_lp_tokens_stableswap_def initial_lp_loop_stableswap.simps [of _ 0]
        product_def mul128_def)
qed

lemma stableswap_initial_lp_zero_product:
  "calc_lp_tokens_stableswap 0 5 0 0 0 1 = Inl DivisionByZero
   \<and> calc_lp_tokens 0 5 0 0 0 1 = Inr 0"
  by (simp add: calc_lp_tokens_stableswap_def initial_lp_loop_stableswap.simps
      calc_lp_tokens_def calc_initial_lp_def isqrt128_def mul128_def)

text \<open>
  Claim C2: with \<open>lp_supply = 0\<close>, \<open>calc_lp_tokens\<close> returns the integer square root of
  \<open>amt0 \<times> amt1\<close>, and \<open>200000000\<close> for the deposit \<open>(100000000, 400000000)\<close>. The
  \<open>calc_lp_tokens\<close> of \<open>math.hpp\<close> does, for every deposit (\<open>calc_lp_tokens_initial\<close>).
  The one of the single header starts its Newton loop at \<open>lp = 1\<close> and leaves it as
  soon as the next iterate is not smaller, which for a product of at least \<open>1\<close> is the
  first pass (\<open>stableswap_initial_lp_is_one\<close>): it returns \<open>1\<close>.
\<close>

theorem calc_lp_tokens_stableswap_initial_deposit:
  "calc_lp_tokens_stableswap 100000000 400000000 0 0 0 1 = Inr 1
   \<and> calc_lp_tokens 100000000 400000000 0 0 0 1 = Inr 200000000"
  by (simp add: calc_lp_tokens_stableswap_def initial_lp_loop_stableswap.simps
      calc_lp_tokens_def calc_initial_lp_def isqrt128_def isqrt128_loop.simps mul128_def)

lemma lp_amount_value:
  assumes "d0 \<noteq> 0" and "d0 \<le> d1"
  shows "unat (ucast (mul128 lp_supply (d1 - d0) div ucast d0) :: u64)
         = (unat lp_supply * (unat d1 - unat d0) div unat d0) mod 2 ^ 64"
proof -
  have "unat (d1 - d0) = unat d1 - unat d0"
    using assms(2) by (rule unat_sub)
  then show ?thesis
    by (simp add: unat_ucast_u128_u64_mod unat_div unat_mul128 unat_ucast_u64_u128)
qed

text \<open>
  The incremental branch of \<open>calc_lp_tokens\<close>. It returns \<open>nullopt\<close> exactly when neither
  invariant computation divides by zero and one of them returns \<open>nullopt\<close> or \<open>D0 = 0\<close>;
  a division by zero in either computation ends the call. When both succeed with
  \<open>0 < D0 \<le> D1\<close>, the result is \<open>lp_supply \<times> (D1 - D0) / D0\<close> truncated to 64 bits.
\<close>

lemma calc_lp_tokens_nullopt_iff:
  assumes "lp_supply \<noteq> 0"
  shows "calc_lp_tokens amt0 amt1 bal0 bal1 lp_supply amp = Inl Nullopt \<longleftrightarrow>
           calc_d bal0 bal1 amp \<noteq> Inl DivisionByZero
         \<and> calc_d (bal0 + amt0) (bal1 + amt1) amp \<noteq> Inl DivisionByZero
         \<and> (calc_d bal0 bal1 amp = Inl Nullopt
            \<or> calc_d (bal0 + amt0) (bal1 + amt1) amp = Inl Nullopt
            \<or> calc_d bal0 bal1 amp = Inr 0)"
proof (cases "calc_d bal0 bal1 amp")
  case (Inl e0)
  then show ?thesis
    using assms
    by (cases e0; cases "calc_d (bal0 + amt0) (bal1 + amt1) amp")
      (auto simp: calc_lp_tokens_def Let_def)
next
  case (Inr v0)
  show ?thesis
  proof (cases "calc_d (bal0 + amt0) (bal1 + amt1) amp")
    case (Inl e1)
    with Inr assms show ?thesis
      by (cases e1) (auto simp: calc_lp_tokens_def Let_def)
  next
    case (Inr v1)
    with \<open>calc_d bal0 bal1 amp = Inr v0\<close> assms show ?thesis
      by (auto simp: calc_lp_tokens_def Let_def)
  qed
qed

lemma calc_lp_tokens_division_by_zero_iff:
  assumes "lp_supply \<noteq> 0"
  shows "calc_lp_tokens amt0 amt1 bal0 bal1 lp_supply amp = Inl DivisionByZero \<longleftrightarrow>
           calc_d bal0 bal1 amp = Inl DivisionByZero
         \<or> calc_d (bal0 + amt0) (bal1 + amt1) amp = Inl DivisionByZero"
  using assms
  by (cases "calc_d bal0 bal1 amp"; cases "calc_d (bal0 + amt0) (bal1 + amt1) amp")
    (auto simp: calc_lp_tokens_def Let_def)

lemma calc_lp_tokens_minted:
  assumes "lp_supply \<noteq> 0"
    and "calc_d bal0 bal1 amp = Inr d0" and "d0 \<noteq> 0"
    and "calc_d (bal0 + amt0) (bal1 + amt1) amp = Inr d1" and "d0 \<le> d1"
  shows "\<exists>v. calc_lp_tokens amt0 amt1 bal0 bal1 lp_supply amp = Inr v
           \<and> unat v = (unat lp_supply * (unat d1 - unat d0) div unat d0) mod 2 ^ 64"
proof -
  have "calc_lp_tokens amt0 amt1 bal0 bal1 lp_supply amp
      = Inr (ucast (mul128 lp_supply (d1 - d0) div ucast d0))"
    using assms by (simp add: calc_lp_tokens_def Let_def)
  with assms(3,5) show ?thesis by (simp add: lp_amount_value)
qed

text \<open>The incremental branch of the single header returns \<open>nullopt\<close> on the same test.\<close>

lemma stableswap_lp_tokens_nullopt_iff:
  assumes "lp_supply \<noteq> 0"
  shows "calc_lp_tokens_stableswap amt0 amt1 bal0 bal1 lp_supply amp = Inl Nullopt \<longleftrightarrow>
           calc_d_stableswap bal0 bal1 amp \<noteq> Inl DivisionByZero
         \<and> calc_d_stableswap (bal0 + amt0) (bal1 + amt1) amp \<noteq> Inl DivisionByZero
         \<and> (calc_d_stableswap bal0 bal1 amp = Inl Nullopt
            \<or> calc_d_stableswap (bal0 + amt0) (bal1 + amt1) amp = Inl Nullopt
            \<or> calc_d_stableswap bal0 bal1 amp = Inr 0)"
proof (cases "calc_d_stableswap bal0 bal1 amp")
  case (Inl e0)
  then show ?thesis
    using assms
    by (cases e0; cases "calc_d_stableswap (bal0 + amt0) (bal1 + amt1) amp")
      (auto simp: calc_lp_tokens_stableswap_def Let_def)
next
  case (Inr v0)
  show ?thesis
  proof (cases "calc_d_stableswap (bal0 + amt0) (bal1 + amt1) amp")
    case (Inl e1)
    with Inr assms show ?thesis
      by (cases e1) (auto simp: calc_lp_tokens_stableswap_def Let_def)
  next
    case (Inr v1)
    with \<open>calc_d_stableswap bal0 bal1 amp = Inr v0\<close> assms show ?thesis
      by (auto simp: calc_lp_tokens_stableswap_def Let_def)
  qed
qed

text \<open>
  The same defect on a pool of ordinary size: balances \<open>(621182075, 12177204)\<close>,
  \<open>amp = 1\<close>, a deposit of one unit of token 0. The solver gives \<open>D0 = 354341424\<close> and
  \<open>D1 = 354341423\<close>, and with \<open>lp_supply = D0\<close> the call returns \<open>2\<^sup>6\<^sup>4 - 1\<close> LP tokens.
\<close>

lemma calc_lp_tokens_wraps_on_pool:
  "calc_d 621182075 12177204 1 = Inr 354341424
   \<and> calc_d 621182076 12177204 1 = Inr 354341423
   \<and> calc_lp_tokens 1 0 621182075 12177204 354341424 1 = Inr 18446744073709551615"
proof -
  have a: "calc_d 621182075 12177204 1 = Inr 354341424" by (simp add: eval_simps)
  have b: "calc_d 621182076 12177204 1 = Inr 354341423" by (simp add: eval_simps)
  show ?thesis by (simp add: a b calc_lp_tokens_def mul128_def ucast_minus_one_u64)
qed

text \<open>
  Claim C4: for an incremental deposit (\<open>lp_supply > 0\<close>), \<open>calc_lp_tokens\<close> returns no
  value whenever either invariant computation fails or \<open>D0 = 0\<close>, and a computed
  \<open>D1 < D0\<close> is treated as a failure rather than minted from a wrapped difference.
  The first part holds (\<open>calc_lp_tokens_nullopt_iff\<close>). The second does not: the
  source comments the result as \<open>lp_supply * (D1 - D0) / D0\<close> and subtracts \<open>*d1 - *d0\<close>
  in 64 bits with no comparison, where \<open>simulate_swap\<close> and \<open>calc_pending_reward\<close>
  compare before they subtract. With balances \<open>(35, 1)\<close>, \<open>amp = 1\<close>, the deposit
  \<open>(1, 0)\<close> and \<open>lp_supply = 1\<close> the solver gives \<open>D0 = 23\<close> and \<open>D1 = 22\<close>, the
  difference wraps to \<open>2\<^sup>6\<^sup>4 - 1\<close>, and both headers return \<open>(2\<^sup>6\<^sup>4 - 1) / 23\<close> instead of
  \<open>nullopt\<close>.
\<close>

theorem calc_lp_tokens_d1_below_d0_wraps:
  "calc_d 35 1 1 = Inr 23 \<and> calc_d (35 + 1) (1 + 0) 1 = Inr 22 \<and> (22 :: u64) < 23
   \<and> calc_lp_tokens 1 0 35 1 1 1 = Inr 802032351030850070
   \<and> calc_lp_tokens 1 0 35 1 1 1 \<noteq> Inl Nullopt
   \<and> calc_lp_tokens_stableswap 1 0 35 1 1 1 = Inr 802032351030850070"
proof -
  have a: "calc_d 35 1 1 = Inr 23" by (simp add: eval_simps)
  have b: "calc_d 36 1 1 = Inr 22" by (simp add: eval_simps)
  have c: "calc_d_stableswap 35 1 1 = Inr 23" by (simp add: eval_simps)
  have d: "calc_d_stableswap 36 1 1 = Inr 22" by (simp add: eval_simps)
  show ?thesis
    by (simp add: a b c d calc_lp_tokens_def calc_lp_tokens_stableswap_def mul128_def
        ucast_minus_one_u64)
qed

text \<open>
  Claim C7: burning the whole supply returns exactly the two balances, and the
  operation fails when \<open>lp_supply = 0\<close>.
\<close>

theorem calc_withdraw_full_burn:
  "(lp_supply \<noteq> 0 \<longrightarrow>
      calc_withdraw lp_supply bal0 bal1 lp_supply = Inr \<lparr>amount0 = bal0, amount1 = bal1\<rparr>)
   \<and> calc_withdraw lp_amount bal0 bal1 0 = Inl Nullopt"
  by (simp add: calc_withdraw_def div128_mul128)

theorem calc_withdraw_full_burn_witness:
  "(7 :: u64) \<noteq> 0
   \<and> calc_withdraw 7 1000 2000 7 = Inr \<lparr>amount0 = 1000, amount1 = 2000\<rparr>
   \<and> calc_withdraw 7 1000 2000 0 = Inl Nullopt"
  using calc_withdraw_full_burn [of 7 1000 2000 7] by simp

section \<open>Amplification ramp\<close>

lemma get_amp_eq:
  "get_amp p now =
     get_current_amp (pool_amp p) (pool_target_amp p) (pool_ramp_start p) (pool_ramp_end p) now"
  by (simp add: get_amp_def get_current_amp_def)

text \<open>
  Claim C5, as the code has it: for a window with \<open>ramp_start < ramp_end\<close>,
  \<open>get_current_amp\<close> at \<open>now = ramp_start\<close> returns the original \<open>amp\<close>; for every window,
  at \<open>now = ramp_end\<close> it returns \<open>target_amp\<close>; and for every \<open>now\<close> it returns a
  value: the division by \<open>duration\<close> is reached only when \<open>ramp_end \<noteq> ramp_start\<close>.
\<close>

theorem get_current_amp_boundaries:
  "(ramp_start <s ramp_end \<longrightarrow>
      get_current_amp amp target_amp ramp_start ramp_end ramp_start = Inr amp)
   \<and> get_current_amp amp target_amp ramp_start ramp_end ramp_end = Inr target_amp
   \<and> (\<exists>v. get_current_amp amp target_amp ramp_start ramp_end now = Inr v)"
  by (auto simp: get_current_amp_def Let_def word_sle_eq word_sless_alt)

theorem get_current_amp_boundaries_witness:
  "(0 :: i64) <s 100
   \<and> get_current_amp 100 200 0 100 0 = Inr 100
   \<and> get_current_amp 100 200 0 100 100 = Inr 200
   \<and> get_current_amp 100 200 0 100 50 = Inr 150"
  using get_current_amp_boundaries [of 0 100 100 200 50]
  by (simp add: get_current_amp_def word_sle_eq word_sless_alt)

text \<open>
  The claim as first stated covers every window. With a window of length zero the
  first test already returns \<open>target_amp\<close>, also at \<open>now = ramp_start\<close>:
\<close>

theorem get_current_amp_zero_window_counterexample:
  "get_current_amp 100 200 5 5 5 = Inr 200 \<and> get_current_amp 100 200 5 5 5 \<noteq> Inr 100"
  by (simp add: get_current_amp_def)

end
